theory Spec2Isabelle
  imports Complex_Main "HOL-Library.Sublist"
begin

section \<open>Python and torch primitives used by \<open>data_processing.py\<close>\<close>

text \<open>
  Python integers are \<open>int\<close>, Python lists are HOL lists, and every exception the
  modelled statements can raise is a value of \<open>py_error\<close>; a computation that may
  raise returns \<open>py_error + 'a\<close> with the exception on the left.
\<close>

datatype py_error = KeyError | IndexError | ValueError | RuntimeError

text \<open>\<open>xs[i]\<close>: a negative index counts from the end, anything else out of range raises.\<close>

definition py_index :: "'a list \<Rightarrow> int \<Rightarrow> py_error + 'a" where
  "py_index xs i =
     (if 0 \<le> i \<and> i < int (length xs) then Inr (xs ! nat i)
      else if i < 0 \<and> - int (length xs) \<le> i then Inr (xs ! nat (int (length xs) + i))
      else Inl IndexError)"

text \<open>\<open>xs[a:b]\<close>: both bounds are clamped into the list, never an exception.\<close>

definition slice_bound :: "nat \<Rightarrow> int \<Rightarrow> nat" where
  "slice_bound n i = (if i < 0 then nat (max 0 (int n + i)) else min n (nat i))"

definition py_slice :: "'a list \<Rightarrow> int \<Rightarrow> int \<Rightarrow> 'a list" where
  "py_slice xs a b =
     (let lo = slice_bound (length xs) a; hi = slice_bound (length xs) b
      in take (hi - lo) (drop lo xs))"

text \<open>\<open>range(a, b)\<close> and \<open>range(a, b, step)\<close>; a zero step raises \<open>ValueError\<close>.\<close>

definition py_range :: "int \<Rightarrow> int \<Rightarrow> int list" where
  "py_range a b = [a..b - 1]"

definition py_range3 :: "int \<Rightarrow> int \<Rightarrow> int \<Rightarrow> py_error + int list" where
  "py_range3 a b step =
     (if step = 0 then Inl ValueError
      else if 0 < step
        then Inr (map (\<lambda>k. a + int k * step) [0..<nat ((b - a + step - 1) div step)])
        else Inr (map (\<lambda>k. a + int k * step) [0..<nat ((a - b - step - 1) div (- step))]))"

text \<open>
  The integer arguments of a torch function are 64-bit: a Python integer outside
  \<open>[-2\<^sup>6\<^sup>3, 2\<^sup>6\<^sup>3)\<close> makes the call raise before anything is computed.
\<close>

definition int64 :: "int \<Rightarrow> bool" where
  "int64 x = (- (2 ^ 63) \<le> x \<and> x < 2 ^ 63)"

text \<open>
  The random source is not part of the repository. Each call of the generator consumes
  one raw natural number of entropy; \<open>torch.randint(low, high, ...)\<close> maps it into
  \<open>[low, high)\<close>. The call raises when a bound does not fit in 64 bits and when the
  interval is empty. Every value of the interval is the image of some raw number, so
  quantifying over the raw numbers covers every possible draw. Exhausted memory is
  not modelled, here or elsewhere.
\<close>

definition torch_randint :: "int \<Rightarrow> int \<Rightarrow> nat \<Rightarrow> py_error + int" where
  "torch_randint low high raw =
     (if int64 low \<and> int64 high
      then (if low < high then Inr (low + int raw mod (high - low)) else Inl RuntimeError)
      else Inl ValueError)"

text \<open>The random source whose every raw value is 0.\<close>

definition zero_entropy :: "nat \<Rightarrow> nat" where
  "zero_entropy k = 0"

section \<open>Context-window sampler: \<open>get_target\<close>\<close>

text \<open>
  The \<open>for i in range(start, end)\<close> loop, with \<open>target_words\<close> as accumulator.
\<close>

fun get_target_loop :: "'a list \<Rightarrow> int \<Rightarrow> int list \<Rightarrow> 'a list \<Rightarrow> py_error + 'a list" where
  "get_target_loop words idx [] target_words = Inr target_words"
| "get_target_loop words idx (i # rest) target_words =
     (if i \<noteq> idx
      then (case py_index words i of
              Inl e \<Rightarrow> Inl e
            | Inr w \<Rightarrow> get_target_loop words idx rest (target_words @ [w]))
      else get_target_loop words idx rest target_words)"

text \<open>\<open>raw\<close> is the entropy consumed by the single \<open>torch.randint\<close> call.\<close>

definition get_target :: "'a list \<Rightarrow> int \<Rightarrow> int \<Rightarrow> nat \<Rightarrow> py_error + 'a list" where
  "get_target words idx window_size raw =
     (case torch_randint 1 (window_size + 1) raw of
        Inl e \<Rightarrow> Inl e
      | Inr R \<Rightarrow>
          (let start = max 0 (idx - R);
               stop = min (int (length words)) (idx + R + 1)
           in get_target_loop words idx (py_range start stop) []))"

section \<open>Batch generator: \<open>get_batches\<close>\<close>

text \<open>
  The generator is modelled by what a consumer sees when it runs it to the end: the list
  of the pairs yielded, in order, and the exception that stopped it, if one did (the
  pairs yielded before the exception are kept). The random source is a stream \<open>g\<close> of
  raw entropy; \<open>k\<close> counts the values consumed so far, one per call of \<open>get_target\<close>.
\<close>

type_synonym entropy = "nat \<Rightarrow> nat"

fun batch_loop ::
  "'a list \<Rightarrow> int \<Rightarrow> entropy \<Rightarrow> nat \<Rightarrow> int list \<Rightarrow> 'a list \<times> 'a list \<Rightarrow>
     py_error + (('a list \<times> 'a list) \<times> nat)" where
  "batch_loop batch window_size g k [] (inputs, targets) = Inr ((inputs, targets), k)"
| "batch_loop batch window_size g k (i # rest) (inputs, targets) =
     (case get_target batch i window_size (g k) of
        Inl e \<Rightarrow> Inl e
      | Inr target_context \<Rightarrow>
          (case py_index batch i of
             Inl e \<Rightarrow> Inl e
           | Inr center \<Rightarrow>
               batch_loop batch window_size g (Suc k) rest
                 (inputs @ replicate (length target_context) center,
                  targets @ target_context)))"

fun get_batches_loop ::
  "'a list \<Rightarrow> int \<Rightarrow> int \<Rightarrow> entropy \<Rightarrow> nat \<Rightarrow> int list \<Rightarrow>
     ('a list \<times> 'a list) list \<times> py_error option" where
  "get_batches_loop words batch_size window_size g k [] = ([], None)"
| "get_batches_loop words batch_size window_size g k (idx # rest) =
     (let batch = py_slice words idx (idx + batch_size)
      in case batch_loop batch window_size g k (py_range 0 (int (length batch))) ([], []) of
           Inl e \<Rightarrow> ([], Some e)
         | Inr (pair, k') \<Rightarrow>
             (case get_batches_loop words batch_size window_size g k' rest of
                (more, raised) \<Rightarrow> (pair # more, raised)))"

definition get_batches ::
  "'a list \<Rightarrow> int \<Rightarrow> int \<Rightarrow> entropy \<Rightarrow> ('a list \<times> 'a list) list \<times> py_error option" where
  "get_batches words batch_size window_size g =
     (case py_range3 0 (int (length words)) batch_size of
        Inl e \<Rightarrow> ([], Some e)
      | Inr starts \<Rightarrow> get_batches_loop words batch_size window_size g 0 starts)"

text \<open>
  The specification's description of the batches, to be compared with the generator:
  \<open>chunk words n k\<close> is the \<open>k\<close>-th of the consecutive chunks of length \<open>n\<close>,
  \<open>num_chunks len n\<close> their number for a list of \<open>len\<close> items, \<open>context_of c\<close> the
  context that \<open>get_target\<close> returns for position \<open>i\<close> of the chunk \<open>c\<close> alone, and
  \<open>chunk_pairs c\<close> the pair built from these contexts: each centre repeated once per
  context item, and the context items, position by position. The draw for position \<open>i\<close>
  of a chunk that starts at position \<open>k\<close> of the input is \<open>g (k + i)\<close>.
\<close>

definition chunk :: "'a list \<Rightarrow> nat \<Rightarrow> nat \<Rightarrow> 'a list" where
  "chunk words n k = take n (drop (k * n) words)"

definition num_chunks :: "nat \<Rightarrow> nat \<Rightarrow> nat" where
  "num_chunks len n = (len + n - 1) div n"

definition context_of :: "'a list \<Rightarrow> int \<Rightarrow> nat \<Rightarrow> nat \<Rightarrow> 'a list" where
  "context_of c window_size raw i =
     (case get_target c (int i) window_size raw of Inr ctx \<Rightarrow> ctx | Inl e \<Rightarrow> [])"

definition chunk_pairs :: "'a list \<Rightarrow> int \<Rightarrow> entropy \<Rightarrow> nat \<Rightarrow> 'a list \<times> 'a list" where
  "chunk_pairs c window_size g k =
     (concat (map (\<lambda>i. replicate (length (context_of c window_size (g (k + i)) i)) (c ! i))
                [0..<length c]),
      concat (map (\<lambda>i. context_of c window_size (g (k + i)) i) [0..<length c]))"


section \<open>Vocabulary builder: \<open>create_lookup_tables\<close>\<close>

text \<open>
  A Python \<open>dict\<close> keeps its keys in insertion order and holds each key once. It is
  modelled by the list of its items in that order; \<open>dict_set\<close> is \<open>d[k] = v\<close>
  (the value is replaced in place when the key is present, the item is appended
  otherwise), \<open>dict_get\<close> is \<open>d[k]\<close>, \<open>dict_of_pairs\<close> is a dict comprehension over
  the given key-value pairs.
\<close>

type_synonym ('k, 'v) dict = "('k \<times> 'v) list"

fun dict_set :: "('k, 'v) dict \<Rightarrow> 'k \<Rightarrow> 'v \<Rightarrow> ('k, 'v) dict" where
  "dict_set [] k v = [(k, v)]"
| "dict_set ((k', v') # d) k v =
     (if k' = k then (k, v) # d else (k', v') # dict_set d k v)"

definition dict_get :: "('k, 'v) dict \<Rightarrow> 'k \<Rightarrow> py_error + 'v" where
  "dict_get d k = (case map_of d k of None \<Rightarrow> Inl KeyError | Some v \<Rightarrow> Inr v)"

definition dict_len :: "('k, 'v) dict \<Rightarrow> nat" where
  "dict_len d = length d"

definition dict_of_pairs :: "('k \<times> 'v) list \<Rightarrow> ('k, 'v) dict" where
  "dict_of_pairs kvs = fold (\<lambda>(k, v) d. dict_set d k v) kvs []"

text \<open>\<open>collections.Counter(words)\<close>: one pass over the words, a count per distinct word.\<close>

definition Counter :: "'a list \<Rightarrow> ('a, nat) dict" where
  "Counter words =
     fold (\<lambda>w d. dict_set d w (case map_of d w of None \<Rightarrow> 1 | Some c \<Rightarrow> c + 1)) words []"

text \<open>
  \<open>Counter.most_common()\<close> is \<open>sorted(items, key=count, reverse=True)\<close>: a stable sort
  into descending counts, which CPython runs as reverse, stable ascending sort, reverse,
  so that items with equal counts stay in first-seen order.
\<close>

definition most_common :: "('a, nat) dict \<Rightarrow> ('a \<times> nat) list" where
  "most_common d = rev (sort_key snd (rev d))"

definition create_lookup_tables :: "'a list \<Rightarrow> ('a, int) dict \<times> (int, 'a) dict" where
  "create_lookup_tables words =
     (let word_counts = Counter words;
          sorted_vocab = map fst (most_common word_counts);
          int_to_vocab = dict_of_pairs (zip (map int [0..<length sorted_vocab]) sorted_vocab);
          vocab_to_int = dict_of_pairs (map (\<lambda>(i, word). (word, i)) int_to_vocab)
      in (vocab_to_int, int_to_vocab))"


section \<open>Subsampler: \<open>subsample_words\<close>\<close>

text \<open>
  Tensors are lists. A \<open>float32\<close> value is idealised as an exact real number, with
  \<open>None\<close> standing for NaN; rounding is not modelled. \<open>torch.rand\<close> turns 24 bits of
  entropy into a multiple of \<open>2\<^sup>-\<^sup>2\<^sup>4\<close> in \<open>[0, 1)\<close>; draw \<open>k\<close> of \<open>keep_prob\<close> uses
  \<open>g k\<close>. The \<open>print\<close> calls have no effect on the result and are left out.
\<close>

type_synonym tfloat = "real option"

definition torch_rand :: "nat \<Rightarrow> real" where
  "torch_rand raw = real (raw mod 2 ^ 24) / 2 ^ 24"

text \<open>\<open>[vocab_to_int[word] for word in words]\<close>: raises at the first missing word.\<close>

fun encode :: "'a list \<Rightarrow> ('a, int) dict \<Rightarrow> py_error + int list" where
  "encode [] vocab_to_int = Inr []"
| "encode (word # rest) vocab_to_int =
     (case dict_get vocab_to_int word of
        Inl e \<Rightarrow> Inl e
      | Inr i \<Rightarrow>
          (case encode rest vocab_to_int of
             Inl e \<Rightarrow> Inl e
           | Inr more \<Rightarrow> Inr (i # more)))"

text \<open>\<open>torch.tensor(..., dtype=torch.long)\<close> raises when a value does not fit in 64 bits.\<close>

definition torch_long_tensor :: "int list \<Rightarrow> py_error + int list" where
  "torch_long_tensor xs =
     (if \<forall>x \<in> set xs. - (2 ^ 63) \<le> x \<and> x < 2 ^ 63 then Inr xs else Inl RuntimeError)"

text \<open>
  \<open>torch.bincount(xs, minlength)\<close> rejects negative entries; the result has
  \<open>max(minlength, max(xs) + 1)\<close> counters.
\<close>

definition torch_bincount :: "int list \<Rightarrow> nat \<Rightarrow> py_error + nat list" where
  "torch_bincount xs minlength =
     (if \<exists>x \<in> set xs. x < 0 then Inl RuntimeError
      else Inr (map (\<lambda>i. count_list xs (int i))
                  [0..<max minlength (nat (fold max xs (- 1) + 1))]))"

text \<open>
  One entry of \<open>probs = 1 - torch.sqrt(threshold / (freqs + 1e-10))\<close>, for a frequency
  \<open>f \<ge> 0\<close> (so that the denominator is positive); the square root of a negative number
  is NaN. The value is that of exact arithmetic: the \<open>float32\<close> result of the code
  differs from it by rounding (for \<open>f = threshold = 1/2\<close> the sum \<open>f + 1e-10\<close> rounds to
  \<open>f\<close> and the code computes exactly 0). No theorem of this development depends on
  the value of an entry of \<open>probs\<close>: the mask they determine is arbitrary in all of them.
\<close>

definition p_discard :: "real \<Rightarrow> real \<Rightarrow> tfloat" where
  "p_discard threshold f =
     (if threshold / (f + 1 / 10 ^ 10) < 0 then None
      else Some (1 - sqrt (threshold / (f + 1 / 10 ^ 10))))"

text \<open>One entry of the mask \<open>keep_prob > probs[int_words]\<close>; a comparison with NaN is false.\<close>

definition keeps :: "real \<Rightarrow> tfloat \<Rightarrow> bool" where
  "keeps u p = (case p of None \<Rightarrow> False | Some q \<Rightarrow> u > q)"

text \<open>\<open>xs[keep]\<close> for a boolean mask.\<close>

definition mask_select :: "'a list \<Rightarrow> bool list \<Rightarrow> 'a list" where
  "mask_select xs keep = map fst (filter snd (zip xs keep))"

text \<open>The items \<open>word: freqs[i].item()\<close> of the returned frequency table.\<close>

fun freq_items :: "tfloat list \<Rightarrow> ('a \<times> int) list \<Rightarrow> py_error + ('a \<times> tfloat) list" where
  "freq_items freqs [] = Inr []"
| "freq_items freqs ((word, i) # rest) =
     (case py_index freqs i of
        Inl e \<Rightarrow> Inl e
      | Inr f \<Rightarrow>
          (case freq_items freqs rest of
             Inl e \<Rightarrow> Inl e
           | Inr more \<Rightarrow> Inr ((word, f) # more)))"

text \<open>
  When \<open>words\<close> is empty, \<open>total_count\<close> is 0 and every count is 0, so every
  frequency is \<open>0 / 0\<close>, which is NaN. \<open>probs[int_words]\<close> reads inside \<open>probs\<close>:
  \<open>torch.bincount\<close> has accepted the ids, so each is non-negative and below the number
  of counters.
\<close>

definition subsample_words ::
  "'a list \<Rightarrow> ('a, int) dict \<Rightarrow> real \<Rightarrow> entropy \<Rightarrow> py_error + (int list \<times> ('a, tfloat) dict)" where
  "subsample_words words vocab_to_int threshold g =
     (case encode words vocab_to_int of
        Inl e \<Rightarrow> Inl e
      | Inr ids \<Rightarrow>
     (case torch_long_tensor ids of
        Inl e \<Rightarrow> Inl e
      | Inr int_words \<Rightarrow>
     (case torch_bincount int_words (dict_len vocab_to_int) of
        Inl e \<Rightarrow> Inl e
      | Inr word_counts \<Rightarrow>
          (let total_count = length int_words;
               freqs = map (\<lambda>c. if total_count = 0 then None
                                  else Some (real c / real total_count)) word_counts;
               probs = map (\<lambda>f. case f of None \<Rightarrow> None | Some x \<Rightarrow> p_discard threshold x) freqs;
               keep_prob = map (\<lambda>k. torch_rand (g k)) [0..<length int_words];
               train_words = mask_select int_words
                               (map2 (\<lambda>u i. keeps u (probs ! nat i)) keep_prob int_words)
           in case freq_items freqs vocab_to_int of
                Inl e \<Rightarrow> Inl e
              | Inr items \<Rightarrow> Inr (train_words, dict_of_pairs items)))))"



section \<open>Similarity evaluator: \<open>cosine_similarity\<close>\<close>

text \<open>
  \<open>embedding.weight\<close> is a \<open>V \<times> D\<close> matrix, given as the list of its \<open>V\<close> rows. The
  device placement does not change any value and is left out.
\<close>

text \<open>
  \<open>torch.randint(low, high, (n,))\<close>: \<open>n\<close> draws, each mapped into \<open>[low, high)\<close> like the
  single draw of \<open>torch_randint\<close>, starting at position \<open>k\<close> of the entropy stream. The
  call raises when a bound or the size does not fit in 64 bits, when the size is
  negative and when the interval is empty.
\<close>

definition torch_randint_vec :: "int \<Rightarrow> int \<Rightarrow> int \<Rightarrow> entropy \<Rightarrow> nat \<Rightarrow> py_error + int list" where
  "torch_randint_vec low high n g k =
     (if int64 low \<and> int64 high \<and> int64 n
      then (if n < 0 \<or> high \<le> low then Inl RuntimeError
            else Inr (map (\<lambda>j. low + int (g (k + j)) mod (high - low)) [0..<nat n]))
      else Inl ValueError)"

text \<open>The ids selected by the \<open>torch.cat\<close> of the two draws.\<close>

definition valid_examples :: "int \<Rightarrow> int \<Rightarrow> entropy \<Rightarrow> py_error + int list" where
  "valid_examples valid_size valid_window g =
     (case torch_randint_vec 0 valid_window (valid_size div 2) g 0 of
        Inl e \<Rightarrow> Inl e
      | Inr common \<Rightarrow>
          (case torch_randint_vec valid_window (valid_window * 2) (valid_size div 2) g
                  (length common) of
             Inl e \<Rightarrow> Inl e
           | Inr rare \<Rightarrow> Inr (common @ rare)))"

text \<open>
  \<open>embed_vectors / embed_vectors.norm(dim=1, keepdim=True)\<close>, row by row; a zero row
  has norm 0 and becomes \<open>0 / 0\<close>, which is NaN.
\<close>

definition row_norm :: "real list \<Rightarrow> real" where
  "row_norm r = sqrt (sum_list (map (\<lambda>x. x\<^sup>2) r))"

definition normalize_row :: "real list \<Rightarrow> tfloat list" where
  "normalize_row r = map (\<lambda>x. if row_norm r = 0 then None else Some (x / row_norm r)) r"

text \<open>\<open>embed_vectors[valid_examples]\<close>: one row per id, \<open>IndexError\<close> for an id out of range.\<close>

fun index_rows :: "'a list \<Rightarrow> int list \<Rightarrow> py_error + 'a list" where
  "index_rows m [] = Inr []"
| "index_rows m (i # rest) =
     (case py_index m i of
        Inl e \<Rightarrow> Inl e
      | Inr r \<Rightarrow>
          (case index_rows m rest of
             Inl e \<Rightarrow> Inl e
           | Inr more \<Rightarrow> Inr (r # more)))"

text \<open>\<open>torch.mm(a, b.t())\<close>: entry \<open>(i, j)\<close> is the dot product of row \<open>i\<close> of \<open>a\<close> and row \<open>j\<close> of \<open>b\<close>.\<close>

definition dot :: "real list \<Rightarrow> tfloat list \<Rightarrow> tfloat" where
  "dot a b =
     fold (\<lambda>(x, y) acc. case (acc, y) of (Some s, Some v) \<Rightarrow> Some (s + x * v) | _ \<Rightarrow> None)
       (zip a b) (Some 0)"

definition torch_mm_t :: "real list list \<Rightarrow> tfloat list list \<Rightarrow> tfloat list list" where
  "torch_mm_t a b = map (\<lambda>ra. map (\<lambda>rb. dot ra rb) b) a"

definition cosine_similarity ::
  "real list list \<Rightarrow> int \<Rightarrow> int \<Rightarrow> entropy \<Rightarrow> py_error + (int list \<times> tfloat list list)" where
  "cosine_similarity embedding valid_size valid_window g =
     (case valid_examples valid_size valid_window g of
        Inl e \<Rightarrow> Inl e
      | Inr ids \<Rightarrow>
          (let embed_vectors = embedding;
               embed_norm = map normalize_row embed_vectors
           in case index_rows embed_vectors ids of
                Inl e \<Rightarrow> Inl e
              | Inr valid_vectors \<Rightarrow> Inr (ids, torch_mm_t valid_vectors embed_norm)))"

text \<open>The formula of the docstring, \<open>sim = (a . b) / |a||b|\<close>.\<close>

definition true_cosine :: "real list \<Rightarrow> real list \<Rightarrow> real" where
  "true_cosine a b = sum_list (map2 (*) a b) / (row_norm a * row_norm b)"

section \<open>Properties of the primitives\<close>

lemma torch_randint_range:
  "int64 low \<Longrightarrow> int64 high \<Longrightarrow> low < high \<Longrightarrow>
   \<exists>R. torch_randint low high raw = Inr R \<and> low \<le> R \<and> R < high"
proof -
  assume h64: "int64 low" "int64 high"
  assume h: "low < high"
  then have "0 \<le> int raw mod (high - low)" and "int raw mod (high - low) < high - low"
    by simp_all
  then have "low \<le> low + int raw mod (high - low) \<and> low + int raw mod (high - low) < high"
    by linarith
  with h h64 show ?thesis
    unfolding torch_randint_def by (intro exI [of _ "low + int raw mod (high - low)"]) simp
qed

lemma torch_randint_onto:
  "int64 low \<Longrightarrow> int64 high \<Longrightarrow> low \<le> R \<Longrightarrow> R < high \<Longrightarrow>
   torch_randint low high (nat (R - low)) = Inr R"
  by (simp add: torch_randint_def)

lemma torch_randint_window:
  assumes "1 \<le> window_size \<and> window_size < 2 ^ 63 - 1"
  shows "\<exists>R. torch_randint 1 (window_size + 1) raw = Inr R \<and> 1 \<le> R \<and> R \<le> window_size"
proof -
  have "int64 1" and "int64 (window_size + 1)" and "1 < window_size + 1"
    using assms by (simp_all add: int64_def)
  from torch_randint_range [OF this, of raw] show ?thesis
    by auto
qed

lemma torch_randint_overflow:
  "2 ^ 63 - 1 \<le> window_size \<Longrightarrow> torch_randint 1 (window_size + 1) raw = Inl ValueError"
  by (simp add: torch_randint_def int64_def)

lemma py_index_in_range:
  "0 \<le> i \<Longrightarrow> i < int (length xs) \<Longrightarrow> py_index xs i = Inr (xs ! nat i)"
  by (simp add: py_index_def)

lemma get_target_loop_in_range:
  "\<forall>i\<in>set is. 0 \<le> i \<and> i < int (length words) \<Longrightarrow>
   get_target_loop words idx is acc =
     Inr (acc @ map (\<lambda>i. words ! nat i) (filter (\<lambda>i. i \<noteq> idx) is))"
  by (induction "is" arbitrary: acc) (simp_all add: py_index_in_range)

lemma upto_without:
  "a \<le> idx \<Longrightarrow> idx \<le> b \<Longrightarrow> filter (\<lambda>i. i \<noteq> idx) [a..b] = [a..idx - 1] @ [idx + 1..b]"
proof -
  assume h: "a \<le> idx" "idx \<le> b"
  have split: "[a..b] = [a..idx - 1] @ idx # [idx + 1..b]"
    using h by (rule upto_split3)
  have "filter (\<lambda>i. i \<noteq> idx) [a..idx - 1] = [a..idx - 1]"
    by (rule filter_True) simp
  moreover have "filter (\<lambda>i. i \<noteq> idx) [idx + 1..b] = [idx + 1..b]"
    by (rule filter_True) simp
  ultimately show ?thesis
    by (simp add: split)
qed

text \<open>The closed form of \<open>get_target\<close> for a draw \<open>R\<close> and an index inside the list.\<close>

lemma get_target_closed:
  assumes "0 \<le> idx" "idx < int (length words)"
    and "torch_randint 1 (window_size + 1) raw = Inr R" "1 \<le> R"
  shows "get_target words idx window_size raw =
           Inr (map (\<lambda>i. words ! nat i)
                  ([max 0 (idx - R)..idx - 1] @
                   [idx + 1..min (int (length words)) (idx + R + 1) - 1]))"
proof -
  let ?start = "max 0 (idx - R)"
  let ?stop = "min (int (length words)) (idx + R + 1)"
  have inr: "\<forall>i\<in>set (py_range ?start ?stop). 0 \<le> i \<and> i < int (length words)"
    by (auto simp: py_range_def)
  have "filter (\<lambda>i. i \<noteq> idx) (py_range ?start ?stop) = [?start..idx - 1] @ [idx + 1..?stop - 1]"
    unfolding py_range_def using assms by (intro upto_without) auto
  then show ?thesis
    using assms(3) get_target_loop_in_range [OF inr, of idx "[]"]
    by (simp add: get_target_def Let_def)
qed

lemma get_target_overflow:
  "2 ^ 63 - 1 \<le> window_size \<Longrightarrow> get_target words idx window_size raw = Inl ValueError"
  by (simp add: get_target_def torch_randint_overflow)

lemma get_target_total:
  assumes "0 \<le> idx" "idx < int (length ws)" "1 \<le> window_size \<and> window_size < 2 ^ 63 - 1"
  shows "\<exists>out. get_target ws idx window_size raw = Inr out \<and> set out \<subseteq> set ws"
proof -
  from assms(3) obtain R where R: "torch_randint 1 (window_size + 1) raw = Inr R" "1 \<le> R"
    using torch_randint_window [of window_size raw] by auto
  let ?is = "[max 0 (idx - R)..idx - 1] @ [idx + 1..min (int (length ws)) (idx + R + 1) - 1]"
  have "ws ! nat i \<in> set ws" if "i \<in> set ?is" for i
  proof -
    from that assms(1,2) R(2) have "0 \<le> i \<and> i < int (length ws)" by auto
    then have "nat i < length ws" by linarith
    then show ?thesis by (rule nth_mem)
  qed
  then have "set (map (\<lambda>i. ws ! nat i) ?is) \<subseteq> set ws"
    by auto
  then show ?thesis
    using get_target_closed [OF assms(1,2) R] by blast
qed

lemma upto_nat: "[0..int n - 1] = map int [0..<n]"
proof (induction n)
  case 0
  show ?case by simp
next
  case (Suc n)
  have "[0..int (Suc n) - 1] = [0..int n - 1] @ [int n]"
    using upto_rec2 [of 0 "int n"] by simp
  with Suc show ?case by simp
qed

lemma batch_loop_run:
  assumes "1 \<le> window_size \<and> window_size < 2 ^ 63 - 1" and "n \<le> length batch" and "j \<le> n"
  shows "batch_loop batch window_size g (k + j) (map int [j..<n]) (inputs, targets) =
           Inr ((inputs @ concat (map (\<lambda>i. replicate (length (context_of batch window_size (g (k + i)) i)) (batch ! i)) [j..<n]),
                 targets @ concat (map (\<lambda>i. context_of batch window_size (g (k + i)) i) [j..<n])),
                k + n)"
  using assms(3)
proof (induction "n - j" arbitrary: j inputs targets)
  case 0
  then show ?case by simp
next
  case (Suc m)
  then have jn: "j < n" by simp
  then have p: "0 \<le> int j" "int j < int (length batch)" using assms(2) by simp_all
  from get_target_total [OF p assms(1)] obtain out
    where out: "get_target batch (int j) window_size (g (k + j)) = Inr out" by blast
  have ctx: "context_of batch window_size (g (k + j)) j = out"
    by (simp add: context_of_def out)
  have pi: "py_index batch (int j) = Inr (batch ! j)"
    using py_index_in_range [OF p] by simp
  have upt: "[j..<n] = j # [Suc j..<n]"
    using jn by (rule upt_conv_Cons)
  have IH: "batch_loop batch window_size g (k + Suc j) (map int [Suc j..<n]) (inputs', targets') =
           Inr ((inputs' @ concat (map (\<lambda>i. replicate (length (context_of batch window_size (g (k + i)) i)) (batch ! i)) [Suc j..<n]),
                 targets' @ concat (map (\<lambda>i. context_of batch window_size (g (k + i)) i) [Suc j..<n])),
                k + n)" for inputs' targets'
    using Suc.hyps(1) [of "Suc j"] Suc.hyps(2) jn by simp
  show ?case
    unfolding upt using IH by (simp add: out pi ctx)
qed

lemma lt_num_chunks: "0 < n \<Longrightarrow> (k < num_chunks len n) = (k * n < len)"
proof -
  assume n: "0 < n"
  have "(k < num_chunks len n) = (Suc k \<le> (len + n - 1) div n)"
    by (auto simp: num_chunks_def)
  also have "\<dots> = (Suc k * n \<le> len + n - 1)"
    using n by (simp add: less_eq_div_iff_mult_less_eq)
  also have "\<dots> = (k * n < len)"
    using n by auto
  finally show ?thesis .
qed

lemma length_chunk: "length (chunk words n k) = min n (length words - k * n)"
  by (simp add: chunk_def min.commute)

lemma chunk_full: "0 < n \<Longrightarrow> Suc k < num_chunks (length words) n \<Longrightarrow> length (chunk words n k) = n"
  by (simp add: length_chunk lt_num_chunks)

lemma chunk_nonempty: "0 < n \<Longrightarrow> k < num_chunks (length words) n \<Longrightarrow> 0 < length (chunk words n k)"
  by (simp add: length_chunk lt_num_chunks)

lemma concat_chunks_take: "concat (map (chunk words n) [0..<k]) = take (k * n) words"
proof (induction k)
  case 0
  show ?case by simp
next
  case (Suc k)
  have "take (k * n + n) words = take (k * n) words @ take n (drop (k * n) words)"
    by (rule take_add)
  with Suc show ?case by (simp add: chunk_def add.commute)
qed

lemma concat_chunks:
  assumes "0 < n"
  shows "concat (map (chunk words n) [0..<num_chunks (length words) n]) = words"
proof -
  have "\<not> num_chunks (length words) n * n < length words"
    using lt_num_chunks [OF assms, of "num_chunks (length words) n" "length words"] by simp
  then show ?thesis
    by (simp add: concat_chunks_take)
qed

lemma py_slice_chunk:
  "0 < n \<Longrightarrow> py_slice words (int k * int n) (int k * int n + int n) = chunk words n k"
proof -
  assume "0 < n"
  have "int k * int n = int (k * n)" by simp
  then have lo: "slice_bound (length words) (int k * int n) = min (length words) (k * n)"
    unfolding slice_bound_def by (simp del: of_nat_add of_nat_mult)
  have "int k * int n + int n = int (k * n + n)" by simp
  then have hi: "slice_bound (length words) (int k * int n + int n) = min (length words) (k * n + n)"
    unfolding slice_bound_def by (simp del: of_nat_add of_nat_mult)
  show ?thesis
  proof (cases "k * n < length words")
    case True
    then show ?thesis
      unfolding py_slice_def chunk_def Let_def lo hi by (simp add: min_def)
  next
    case False
    then show ?thesis
      unfolding py_slice_def chunk_def Let_def lo hi by simp
  qed
qed

lemma py_range3_starts:
  assumes "0 < n"
  shows "py_range3 0 (int len) (int n) = Inr (map (\<lambda>k. int k * int n) [0..<num_chunks len n])"
proof -
  have "int len + int n - 1 = int (len + n - 1)"
    using assms by auto
  then have "(int len - 0 + int n - 1) div int n = int ((len + n - 1) div n)"
    by (simp add: zdiv_int del: of_nat_add)
  then have "nat ((int len - 0 + int n - 1) div int n) = num_chunks len n"
    by (simp add: num_chunks_def)
  then show ?thesis
    using assms unfolding py_range3_def by simp
qed

lemma batch_loop_chunk:
  assumes "1 \<le> window_size \<and> window_size < 2 ^ 63 - 1"
  shows "batch_loop c window_size g k (py_range 0 (int (length c))) ([], []) =
           Inr (chunk_pairs c window_size g k, k + length c)"
  using batch_loop_run [OF assms, of "length c" c 0 g k "[]" "[]"]
  by (simp add: py_range_def upto_nat chunk_pairs_def)

lemma get_batches_loop_run:
  assumes "1 \<le> window_size \<and> window_size < 2 ^ 63 - 1" and "0 < n" and "j \<le> num_chunks (length words) n"
  shows "get_batches_loop words (int n) window_size g (j * n)
           (map (\<lambda>k. int k * int n) [j..<num_chunks (length words) n]) =
         (map (\<lambda>k. chunk_pairs (chunk words n k) window_size g (k * n))
                [j..<num_chunks (length words) n], None)"
  using assms(3)
proof (induction "num_chunks (length words) n - j" arbitrary: j)
  case 0
  then show ?case by simp
next
  case (Suc d)
  let ?m = "num_chunks (length words) n"
  from Suc have jm: "j < ?m" by simp
  have upt: "[j..<?m] = j # [Suc j..<?m]"
    using jm by (rule upt_conv_Cons)
  have rest: "get_batches_loop words (int n) window_size g (j * n + length (chunk words n j))
           (map (\<lambda>k. int k * int n) [Suc j..<?m]) =
         (map (\<lambda>k. chunk_pairs (chunk words n k) window_size g (k * n)) [Suc j..<?m], None)"
  proof (cases "Suc j < ?m")
    case True
    then have "length (chunk words n j) = n"
      using assms(2) by (simp add: chunk_full)
    then show ?thesis
      using Suc.hyps(1) [of "Suc j"] Suc.hyps(2) True by (simp add: add.commute)
  next
    case False
    then show ?thesis by simp
  qed
  show ?case
    unfolding upt
    by (simp add: py_slice_chunk [OF assms(2)] batch_loop_chunk [OF assms(1)] rest)
qed

lemma get_batches_closed:
  assumes "1 \<le> window_size \<and> window_size < 2 ^ 63 - 1" and "1 \<le> batch_size"
  shows "get_batches words batch_size window_size g =
         (map (\<lambda>k. chunk_pairs (chunk words (nat batch_size) k) window_size g (k * nat batch_size))
                [0..<num_chunks (length words) (nat batch_size)], None)"
proof -
  define n where "n = nat batch_size"
  have bs: "batch_size = int n" and n: "0 < n"
    using assms(2) by (simp_all add: n_def)
  show ?thesis
    unfolding get_batches_def bs
    using get_batches_loop_run [OF assms(1) n, of 0 words g]
    by (simp add: py_range3_starts [OF n])
qed

text \<open>
  Every pair the generator yields has as many inputs as targets, for all parameters and
  also when an exception ends the run: each position adds \<open>len(target_context)\<close> items
  to both lists.
\<close>

lemma batch_loop_lengths:
  "batch_loop batch window_size g k ps (inputs, targets) = Inr ((inputs', targets'), k') \<Longrightarrow>
   length inputs = length targets \<Longrightarrow> length inputs' = length targets'"
proof (induction ps arbitrary: k inputs targets)
  case Nil
  then show ?case by simp
next
  case (Cons i ps)
  from Cons.prems(1) obtain ctx c where
    step: "batch_loop batch window_size g (Suc k) ps
             (inputs @ replicate (length ctx) c, targets @ ctx) = Inr ((inputs', targets'), k')"
    by (auto split: sum.splits)
  have "length (inputs @ replicate (length ctx) c) = length (targets @ ctx)"
    using Cons.prems(2) by simp
  with step show ?case
    by (rule Cons.IH)
qed

lemma get_batches_loop_lengths:
  "(inputs, targets) \<in> set (fst (get_batches_loop words batch_size window_size g k starts)) \<Longrightarrow>
   length inputs = length targets"
proof (induction starts arbitrary: k)
  case Nil
  then show ?case by simp
next
  case (Cons idx starts)
  let ?batch = "py_slice words idx (idx + batch_size)"
  show ?case
  proof (cases "batch_loop ?batch window_size g k (py_range 0 (int (length ?batch))) ([], [])")
    case (Inl e)
    with Cons.prems show ?thesis by (simp add: Let_def)
  next
    case (Inr r)
    obtain i t k' where r: "r = ((i, t), k')"
      by (cases r) auto
    have first: "length i = length t"
      using batch_loop_lengths [OF Inr [unfolded r]] by simp
    from Cons.prems have
      "(inputs, targets) = (i, t) \<or>
       (inputs, targets) \<in> set (fst (get_batches_loop words batch_size window_size g k' starts))"
      by (auto simp: Let_def Inr r split: prod.splits)
    then show ?thesis
      using first Cons.IH [of k'] by auto
  qed
qed

lemma get_batches_lengths:
  "(inputs, targets) \<in> set (fst (get_batches words batch_size window_size g)) \<Longrightarrow>
   length inputs = length targets"
  unfolding get_batches_def
  by (cases "py_range3 0 (int (length words)) batch_size") (auto dest: get_batches_loop_lengths)

lemma get_batches_empty:
  "batch_size \<noteq> 0 \<Longrightarrow> get_batches [] batch_size window_size g = ([], None)"
  by (simp add: get_batches_def py_range3_def)

lemma context_of_get_target:
  assumes "1 \<le> window_size \<and> window_size < 2 ^ 63 - 1" and "i < length c"
  shows "get_target c (int i) window_size raw = Inr (context_of c window_size raw i) \<and>
         set (context_of c window_size raw i) \<subseteq> set c"
proof -
  have "0 \<le> int i" "int i < int (length c)"
    using assms(2) by simp_all
  from get_target_total [OF this assms(1), of raw] show ?thesis
    by (auto simp: context_of_def)
qed

lemma chunk_pairs_lengths:
  "length (fst (chunk_pairs c window_size g k)) = length (snd (chunk_pairs c window_size g k))"
  by (simp add: chunk_pairs_def length_concat o_def)

lemma chunk_pairs_within:
  assumes "1 \<le> window_size \<and> window_size < 2 ^ 63 - 1"
  shows "set (fst (chunk_pairs c window_size g k)) \<subseteq> set c \<and>
         set (snd (chunk_pairs c window_size g k)) \<subseteq> set c"
proof -
  have ctx: "set (context_of c window_size raw i) \<subseteq> set c" if "i < length c" for i raw
    using context_of_get_target [OF assms that] by blast
  have "set (fst (chunk_pairs c window_size g k)) \<subseteq> set c"
    by (auto simp: chunk_pairs_def)
  moreover have "set (snd (chunk_pairs c window_size g k)) \<subseteq> set c"
    using ctx by (fastforce simp: chunk_pairs_def)
  ultimately show ?thesis ..
qed

lemma num_chunks_ceiling:
  assumes "0 < n"
  shows "int (num_chunks len n) = \<lceil>real len / real n\<rceil>"
proof (cases "num_chunks len n")
  case 0
  then have "\<not> 0 * n < len"
    using lt_num_chunks [OF assms, of 0 len] by simp
  then show ?thesis using 0 by simp
next
  case (Suc m)
  have "m * n < len"
    using lt_num_chunks [OF assms, of m len] Suc by simp
  then have "real (m * n) < real len"
    using of_nat_less_iff by blast
  then have lo: "of_int (int m) < real len / real n"
    using assms by (simp add: pos_less_divide_eq)
  have "\<not> Suc m * n < len"
    using lt_num_chunks [OF assms, of "Suc m" len] Suc by simp
  then have "real len \<le> real (Suc m * n)"
    using of_nat_le_iff by (metis not_less)
  then have hi: "real len / real n \<le> of_int (int m) + 1"
    using assms by (simp add: pos_divide_le_eq algebra_simps)
  from lo hi have "\<lceil>real len / real n\<rceil> = int m + 1"
    by (rule ceiling_eq)
  then show ?thesis using Suc by simp
qed

section \<open>Properties of the vocabulary builder\<close>

lemma map_of_dict_set: "map_of (dict_set d k v) = (map_of d)(k \<mapsto> v)"
  by (induction d) auto

lemma keys_dict_set:
  "map fst (dict_set d k v) = (if k \<in> fst ` set d then map fst d else map fst d @ [k])"
  by (induction d) (fastforce simp: image_iff)+

lemma dict_set_fresh: "k \<notin> fst ` set d \<Longrightarrow> dict_set d k v = d @ [(k, v)]"
  by (induction d) auto

lemma dict_of_pairs_fold:
  "distinct (map fst (acc @ kvs)) \<Longrightarrow> fold (\<lambda>(k, v) d. dict_set d k v) kvs acc = acc @ kvs"
proof (induction kvs arbitrary: acc)
  case Nil
  show ?case by simp
next
  case (Cons kv kvs)
  obtain k v where kv: "kv = (k, v)" by (cases kv)
  from Cons.prems have fresh: "k \<notin> fst ` set acc"
    by (auto simp: kv)
  from Cons.prems have "distinct (map fst ((acc @ [(k, v)]) @ kvs))"
    by (simp add: kv)
  from Cons.IH [OF this] show ?case
    by (simp add: kv dict_set_fresh [OF fresh])
qed

lemma dict_of_pairs_distinct: "distinct (map fst kvs) \<Longrightarrow> dict_of_pairs kvs = kvs"
  using dict_of_pairs_fold [of "[]" kvs] by (simp add: dict_of_pairs_def)

lemma counter_fold:
  "distinct (map fst d) \<Longrightarrow>
   distinct (map fst (fold (\<lambda>w d. dict_set d w (case map_of d w of None \<Rightarrow> 1 | Some c \<Rightarrow> c + 1)) ws d)) \<and>
   map_of (fold (\<lambda>w d. dict_set d w (case map_of d w of None \<Rightarrow> 1 | Some c \<Rightarrow> c + 1)) ws d) =
     (\<lambda>w. case map_of d w of
             None \<Rightarrow> if w \<in> set ws then Some (count_list ws w) else None
           | Some c \<Rightarrow> Some (c + count_list ws w))"
proof (induction ws arbitrary: d)
  case Nil
  show ?case using Nil by (auto split: option.splits)
next
  case (Cons x ws)
  let ?d = "dict_set d x (case map_of d x of None \<Rightarrow> 1 | Some c \<Rightarrow> c + 1)"
  have "distinct (map fst ?d)"
    using Cons.prems by (simp add: keys_dict_set)
  from Cons.IH [OF this] show ?case
    by (auto simp: map_of_dict_set fun_eq_iff split: option.splits)
qed

lemma Counter_distinct: "distinct (map fst (Counter words))"
  using counter_fold [of "[]" words] by (simp add: Counter_def)

lemma Counter_lookup:
  "map_of (Counter words) w = (if w \<in> set words then Some (count_list words w) else None)"
  using counter_fold [of "[]" words] by (simp add: Counter_def)

lemma Counter_keys: "fst ` set (Counter words) = set words"
proof -
  have "dom (map_of (Counter words)) = set words"
    by (auto simp: Counter_lookup dom_def)
  then show ?thesis by (simp add: dom_map_of_conv_image_fst)
qed

lemma Counter_entry: "(w, c) \<in> set (Counter words) \<Longrightarrow> c = count_list words w"
proof -
  assume "(w, c) \<in> set (Counter words)"
  then have "map_of (Counter words) w = Some c"
    by (simp add: map_of_eq_Some_iff [OF Counter_distinct])
  then show ?thesis
    by (simp add: Counter_lookup split: if_splits)
qed

lemma most_common_set: "set (most_common d) = set d"
  by (simp add: most_common_def)

lemma most_common_distinct: "distinct (map fst d) \<Longrightarrow> distinct (map fst (most_common d))"
  by (simp add: most_common_def distinct_map)

lemma most_common_length: "length (most_common d) = length d"
  by (simp add: most_common_def)

lemma sorted_last_max:
  "sorted (map f ys) \<Longrightarrow> y \<in> set ys \<Longrightarrow> f y \<le> f (last ys)"
proof (induction ys rule: rev_induct)
  case Nil
  then show ?case by simp
next
  case (snoc z zs)
  then show ?case by (auto simp: sorted_append)
qed

lemma most_common_hd:
  assumes "p \<in> set d"
  shows "snd p \<le> snd (hd (most_common d))"
proof -
  let ?ys = "sort_key snd (rev d)"
  have ne: "?ys \<noteq> []"
    using assms by (metis empty_iff length_0_conv length_rev length_sort list.set(1) set_rev)
  have "sorted (map snd ?ys)"
    by (rule sorted_sort_key)
  moreover have "p \<in> set ?ys"
    using assms by simp
  ultimately have "snd p \<le> snd (last ?ys)"
    by (rule sorted_last_max)
  then show ?thesis
    using ne by (simp add: most_common_def hd_rev)
qed


lemma zip_swap: "map (\<lambda>(a, b). (b, a)) (zip xs ys) = zip ys xs"
proof (induction xs arbitrary: ys)
  case Nil
  show ?case by simp
next
  case (Cons x xs)
  then show ?case by (cases ys) simp_all
qed

lemma create_lookup_tables_closed:
  "create_lookup_tables words =
     (zip (map fst (most_common (Counter words))) (map int [0..<length (Counter words)]),
      zip (map int [0..<length (Counter words)]) (map fst (most_common (Counter words))))"
proof -
  let ?sv = "map fst (most_common (Counter words))"
  let ?ids = "map int [0..<length ?sv]"
  have dsv: "distinct ?sv"
    using Counter_distinct by (rule most_common_distinct)
  have dids: "distinct ?ids"
    by (simp add: distinct_map)
  have i2v: "dict_of_pairs (zip ?ids ?sv) = zip ?ids ?sv"
    using dids by (intro dict_of_pairs_distinct) simp
  have swap: "map (\<lambda>(i, word). (word, i)) (zip ?ids ?sv) = zip ?sv ?ids"
    by (rule zip_swap)
  have v2i: "dict_of_pairs (zip ?sv ?ids) = zip ?sv ?ids"
    using dsv by (intro dict_of_pairs_distinct) simp
  show ?thesis
    unfolding create_lookup_tables_def Let_def i2v swap v2i
    by (simp add: most_common_length)
qed

section \<open>Properties of the subsampler\<close>

lemma dict_get_Inr: "(dict_get d k = Inr v) = (map_of d k = Some v)"
  by (simp add: dict_get_def split: option.splits)

lemma dict_get_Inl: "(dict_get d k = Inl e) = (k \<notin> fst ` set d \<and> e = KeyError)"
proof (cases "map_of d k")
  case None
  then have "k \<notin> fst ` set d"
    by (simp add: map_of_eq_None_iff)
  then show ?thesis
    unfolding dict_get_def None by auto
next
  case (Some v)
  then have "k \<in> fst ` set d"
    by (metis map_of_eq_None_iff option.distinct(1))
  with Some show ?thesis
    by (simp add: dict_get_def)
qed

lemma encode_Inr:
  "encode words vocab = Inr ids \<Longrightarrow> list_all2 (\<lambda>w i. map_of vocab w = Some i) words ids"
  by (induction words arbitrary: ids) (auto simp: dict_get_Inr split: sum.splits)

lemma encode_Inl:
  "encode words vocab = Inl e \<Longrightarrow> e = KeyError \<and> (\<exists>w \<in> set words. w \<notin> fst ` set vocab)"
  by (induction words) (auto simp: dict_get_Inl split: sum.splits)

lemma encode_missing:
  "\<exists>w \<in> set words. w \<notin> fst ` set vocab \<Longrightarrow> encode words vocab = Inl KeyError"
proof (cases "encode words vocab")
  case (Inl e)
  then show ?thesis using encode_Inl by blast
next
  case (Inr ids)
  assume "\<exists>w \<in> set words. w \<notin> fst ` set vocab"
  then obtain w where w: "w \<in> set words" "map_of vocab w = None"
    by (auto simp: map_of_eq_None_iff)
  from encode_Inr [OF Inr] w(1) have "\<exists>i. map_of vocab w = Some i"
    by (auto simp: list_all2_conv_all_nth in_set_conv_nth)
  with w(2) show ?thesis by simp
qed

lemma encode_values:
  "encode words vocab = Inr ids \<Longrightarrow> i \<in> set ids \<Longrightarrow> \<exists>w. (w, i) \<in> set vocab"
proof -
  assume "encode words vocab = Inr ids" and "i \<in> set ids"
  then obtain w where "map_of vocab w = Some i"
    using encode_Inr [of words vocab ids]
    by (auto simp: list_all2_conv_all_nth in_set_conv_nth)
  then show ?thesis
    by (blast dest: map_of_SomeD)
qed

lemma mask_select_subseq: "subseq (mask_select xs keep) xs"
  unfolding mask_select_def
proof (induction xs arbitrary: keep)
  case Nil
  show ?case by simp
next
  case (Cons x xs)
  show ?case
  proof (cases keep)
    case Nil
    then show ?thesis by simp
  next
    case (Cons b bs)
    with Cons.IH [of bs] show ?thesis by auto
  qed
qed

lemma freq_items_total:
  "\<forall>(w, i) \<in> set items. 0 \<le> i \<and> i < int (length freqs) \<Longrightarrow>
   \<exists>r. freq_items freqs items = Inr r"
proof (induction items)
  case Nil
  show ?case by simp
next
  case (Cons a items)
  obtain w i where a: "a = (w, i)" by (cases a)
  from Cons.prems have "py_index freqs i = Inr (freqs ! nat i)"
    by (simp add: a py_index_in_range)
  moreover from Cons have "\<exists>r. freq_items freqs items = Inr r"
    by simp
  ultimately show ?case
    by (auto simp: a)
qed

lemma subsample_words_Inr:
  assumes "subsample_words words vocab threshold g = Inr (train_words, table)"
  shows "\<exists>ids. encode words vocab = Inr ids \<and> subseq train_words ids"
proof -
  from assms obtain ids where ids: "encode words vocab = Inr ids"
    by (cases "encode words vocab") (simp_all add: subsample_words_def)
  from assms have "\<exists>keep. train_words = mask_select ids keep"
    unfolding subsample_words_def ids torch_long_tensor_def Let_def
    by (auto split: sum.splits if_splits)
  then show ?thesis
    using ids mask_select_subseq by blast
qed

lemma subsample_words_total:
  assumes "\<forall>w \<in> set words. w \<in> fst ` set vocab"
    and "\<forall>(w, i) \<in> set vocab. 0 \<le> i \<and> i < int (length vocab) \<and> i < 2 ^ 63"
  shows "\<exists>train_words table. subsample_words words vocab threshold g = Inr (train_words, table)"
proof -
  obtain ids where ids: "encode words vocab = Inr ids"
    using assms(1) encode_Inl [of words vocab] by (cases "encode words vocab") auto
  have rng: "0 \<le> i \<and> i < int (length vocab) \<and> i < 2 ^ 63" if "i \<in> set ids" for i
    using encode_values [OF ids that] assms(2) by auto
  have long: "torch_long_tensor ids = Inr ids"
    unfolding torch_long_tensor_def using rng by force
  have nonneg: "\<not> (\<exists>x \<in> set ids. x < 0)"
    using rng by force
  define word_counts where
    "word_counts = map (\<lambda>i. count_list ids (int i))
                     [0..<max (length vocab) (nat (fold max ids (- 1) + 1))]"
  have wc: "torch_bincount ids (dict_len vocab) = Inr word_counts"
    unfolding torch_bincount_def dict_len_def word_counts_def using nonneg by simp
  have len: "length vocab \<le> length word_counts"
    by (simp add: word_counts_def)
  let ?freqs = "map (\<lambda>c. if length ids = 0 then None
                            else Some (real c / real (length ids))) word_counts"
  have "\<forall>(w, i) \<in> set vocab. 0 \<le> i \<and> i < int (length ?freqs)"
    using assms(2) len by auto
  from freq_items_total [OF this] obtain items where "freq_items ?freqs vocab = Inr items"
    by blast
  then show ?thesis
    by (simp add: subsample_words_def ids long wc Let_def)
qed

section \<open>Properties of the similarity evaluator\<close>

lemma valid_examples_window_one: "valid_examples 2 1 g = Inr [0, 1]"
  by (simp add: valid_examples_def torch_randint_vec_def int64_def)

lemma row_norm_axis: "row_norm [2, 0] = 2" "row_norm [0, 2] = 2"
  by (simp_all add: row_norm_def)

lemma torch_randint_vec_ok:
  assumes "0 \<le> n" and "low < high" and "int64 low \<and> int64 high \<and> int64 n"
  shows "\<exists>xs. torch_randint_vec low high n g k = Inr xs \<and> length xs = nat n \<and>
              (\<forall>x \<in> set xs. low \<le> x \<and> x < high)"
proof -
  have "low \<le> low + int r mod (high - low) \<and> low + int r mod (high - low) < high" for r
  proof -
    have "0 \<le> int r mod (high - low)" and "int r mod (high - low) < high - low"
      using assms(2) by simp_all
    then show ?thesis by linarith
  qed
  then show ?thesis
    using assms by (auto simp: torch_randint_vec_def)
qed

lemma index_rows_ok:
  "\<forall>i \<in> set ids. 0 \<le> i \<and> i < int (length m) \<Longrightarrow>
   \<exists>rows. index_rows m ids = Inr rows \<and> length rows = length ids"
proof (induction ids)
  case Nil
  show ?case by simp
next
  case (Cons i ids)
  then have "py_index m i = Inr (m ! nat i)"
    by (simp add: py_index_in_range)
  moreover from Cons obtain rows where "index_rows m ids = Inr rows" "length rows = length ids"
    by auto
  ultimately show ?case by simp
qed

section \<open>Claims about \<open>create_lookup_tables\<close>\<close>

text \<open>
  C5, as stated, promises for every word list that id 0 maps to a token. For the empty
  list both dictionaries are empty and \<open>int_to_vocab[0]\<close> raises \<open>KeyError\<close>.
\<close>

theorem create_lookup_tables_empty:
  "dict_get (snd (create_lookup_tables ([] :: string list))) 0 = Inl KeyError"
  by (simp add: create_lookup_tables_def Counter_def most_common_def dict_of_pairs_def dict_get_def)

text \<open>
  C5, amended. For every word list, \<open>create_lookup_tables\<close> returns two dictionaries
  whose sizes both equal the number of distinct tokens, with
  \<open>int_to_vocab[vocab_to_int[w]] = w\<close> for every word \<open>w\<close> of the list; for every
  non-empty word list, id 0 maps to a token with the highest occurrence count.
\<close>

theorem create_lookup_tables_bijection:
  "\<exists>vocab_to_int int_to_vocab.
     create_lookup_tables words = (vocab_to_int, int_to_vocab) \<and>
     distinct (map fst vocab_to_int) \<and> distinct (map fst int_to_vocab) \<and>
     dict_len vocab_to_int = card (set words) \<and>
     dict_len int_to_vocab = card (set words) \<and>
     (\<forall>w \<in> set words.
        \<exists>i. dict_get vocab_to_int w = Inr i \<and> dict_get int_to_vocab i = Inr w) \<and>
     (words \<noteq> [] \<longrightarrow>
        (\<exists>w. dict_get int_to_vocab 0 = Inr w \<and>
             (\<forall>w'. count_list words w' \<le> count_list words w)))"
proof -
  let ?mc = "most_common (Counter words)"
  let ?sv = "map fst ?mc"
  let ?V = "length (Counter words)"
  let ?ids = "map int [0..<?V]"
  let ?v2i = "zip ?sv ?ids"
  let ?i2v = "zip ?ids ?sv"
  have len: "length ?sv = ?V" "length ?ids = ?V"
    by (simp_all add: most_common_length)
  have dsv: "distinct ?sv"
    using Counter_distinct by (rule most_common_distinct)
  have dids: "distinct ?ids"
    by (simp add: distinct_map)
  have set_sv: "set ?sv = set words"
    using Counter_keys [of words] by (simp add: most_common_set)
  have V: "?V = card (set words)"
  proof -
    have "card (set (map fst (Counter words))) = length (map fst (Counter words))"
      using Counter_distinct by (rule distinct_card)
    then show ?thesis
      using Counter_keys [of words] by simp
  qed
  have keys: "map fst ?v2i = ?sv" "map fst ?i2v = ?ids"
    using len by simp_all
  have rt: "dict_get ?v2i (?sv ! j) = Inr (int j) \<and> dict_get ?i2v (int j) = Inr (?sv ! j)"
    if j: "j < ?V" for j
  proof -
    have "map_of ?v2i (?sv ! j) = Some (?ids ! j)"
      using len dsv j by (intro map_of_zip_nth) simp_all
    moreover have "map_of ?i2v (?ids ! j) = Some (?sv ! j)"
      using len dids j by (intro map_of_zip_nth) simp_all
    moreover have "?ids ! j = int j"
      using j by simp
    ultimately show ?thesis
      by (simp add: dict_get_def)
  qed
  have round: "\<exists>i. dict_get ?v2i w = Inr i \<and> dict_get ?i2v i = Inr w" if "w \<in> set words" for w
  proof -
    from that set_sv have "w \<in> set ?sv" by simp
    then obtain j where "j < length ?sv" and "?sv ! j = w"
      by (auto simp: in_set_conv_nth)
    then show ?thesis
      using rt [of j] len by auto
  qed
  have top: "\<exists>w. dict_get ?i2v 0 = Inr w \<and> (\<forall>w'. count_list words w' \<le> count_list words w)"
    if ne: "words \<noteq> []"
  proof -
    have pos: "0 < ?V"
      using ne V by (simp add: card_gt_0_iff)
    then have mc_ne: "?mc \<noteq> []"
      using most_common_length [of "Counter words"] by auto
    then have hd_in: "hd ?mc \<in> set (Counter words)"
      using most_common_set [of "Counter words"] hd_in_set by blast
    have sv0: "?sv ! 0 = fst (hd ?mc)"
      using mc_ne by (simp add: hd_conv_nth)
    have cnt: "snd (hd ?mc) = count_list words (fst (hd ?mc))"
      using hd_in Counter_entry [of "fst (hd ?mc)" "snd (hd ?mc)" words] by simp
    have "count_list words w' \<le> count_list words (fst (hd ?mc))" for w'
    proof (cases "w' \<in> set words")
      case True
      then have "map_of (Counter words) w' = Some (count_list words w')"
        by (simp add: Counter_lookup)
      then have "(w', count_list words w') \<in> set (Counter words)"
        by (rule map_of_SomeD)
      from most_common_hd [OF this] show ?thesis
        using cnt by simp
    next
      case False
      then show ?thesis by (simp add: count_list_0_iff)
    qed
    then show ?thesis
      using rt [OF pos] sv0 by auto
  qed
  have d1: "distinct (map fst ?v2i)" and d2: "distinct (map fst ?i2v)"
    unfolding keys using dsv dids by blast+
  have "length ?v2i = ?V"
    using len by simp
  with V have l1: "dict_len ?v2i = card (set words)"
    unfolding dict_len_def by (simp only:)
  have "length ?i2v = ?V"
    using len by simp
  with V have l2: "dict_len ?i2v = card (set words)"
    unfolding dict_len_def by (simp only:)
  have r: "\<forall>w \<in> set words. \<exists>i. dict_get ?v2i w = Inr i \<and> dict_get ?i2v i = Inr w"
    using round by blast
  have t: "words \<noteq> [] \<longrightarrow>
        (\<exists>w. dict_get ?i2v 0 = Inr w \<and> (\<forall>w'. count_list words w' \<le> count_list words w))"
    using top by blast
  from d1 d2 l1 l2 r t show ?thesis
    unfolding create_lookup_tables_closed by blast
qed

theorem create_lookup_tables_bijection_witness:
  "\<exists>vocab_to_int int_to_vocab.
     create_lookup_tables [''a'', ''b'', ''a'', ''c'', ''a'', ''b''] = (vocab_to_int, int_to_vocab) \<and>
     distinct (map fst vocab_to_int) \<and> distinct (map fst int_to_vocab) \<and>
     dict_len vocab_to_int = card (set [''a'', ''b'', ''a'', ''c'', ''a'', ''b'']) \<and>
     dict_len int_to_vocab = card (set [''a'', ''b'', ''a'', ''c'', ''a'', ''b'']) \<and>
     (\<forall>w \<in> set [''a'', ''b'', ''a'', ''c'', ''a'', ''b''].
        \<exists>i. dict_get vocab_to_int w = Inr i \<and> dict_get int_to_vocab i = Inr w) \<and>
     ([''a'', ''b'', ''a'', ''c'', ''a'', ''b''] \<noteq> [] \<and>
        (\<exists>w. dict_get int_to_vocab 0 = Inr w \<and>
             (\<forall>w'. count_list [''a'', ''b'', ''a'', ''c'', ''a'', ''b''] w'
                      \<le> count_list [''a'', ''b'', ''a'', ''c'', ''a'', ''b''] w)))"
  using create_lookup_tables_bijection [of "[''a'', ''b'', ''a'', ''c'', ''a'', ''b'']"] by simp


section \<open>Claims about \<open>get_target\<close>\<close>

text \<open>
  C6, as stated, covers every \<open>window_size \<ge> 1\<close>. The bound \<open>window_size + 1\<close> passed to
  \<open>torch.randint\<close> must fit in 64 bits: for \<open>window_size = 2\<^sup>6\<^sup>3 - 1\<close> the call raises and
  \<open>get_target\<close> returns nothing.
\<close>

theorem get_target_window_overflow:
  "get_target [10, 20, 30 :: nat] 1 (2 ^ 63 - 1) 0 = Inl ValueError"
  by (simp add: get_target_def torch_randint_def int64_def)

text \<open>
  C6, amended. For every sequence, every index \<open>idx\<close> with \<open>0 \<le> idx < len(sequence)\<close> and
  every \<open>window_size\<close> with \<open>1 \<le> window_size \<le> 2\<^sup>6\<^sup>3 - 2\<close>, \<open>get_target\<close> draws an integer
  \<open>R\<close> in \<open>[1, window_size]\<close>, sets \<open>start = max(0, idx - R)\<close> and
  \<open>end = min(len, idx + R + 1)\<close>, and returns exactly the items at the positions of
  \<open>[start, end)\<close> other than \<open>idx\<close>, from left to right; position \<open>idx\<close> is not among the
  positions read, and the output has \<open>end - start - 1\<close> items, a number between \<open>0\<close> and
  \<open>2 * window_size\<close>.
\<close>

theorem get_target_window:
  assumes "0 \<le> idx" and "idx < int (length words)"
    and "1 \<le> window_size" and "window_size < 2 ^ 63 - 1"
  shows "\<exists>R start stop out.
           torch_randint 1 (window_size + 1) raw = Inr R \<and> 1 \<le> R \<and> R \<le> window_size \<and>
           start = max 0 (idx - R) \<and> stop = min (int (length words)) (idx + R + 1) \<and>
           get_target words idx window_size raw = Inr out \<and>
           out = map (\<lambda>i. words ! nat i) ([start..idx - 1] @ [idx + 1..stop - 1]) \<and>
           out = map (\<lambda>i. words ! nat i) (filter (\<lambda>i. i \<noteq> idx) (py_range start stop)) \<and>
           idx \<notin> set ([start..idx - 1] @ [idx + 1..stop - 1]) \<and>
           int (length out) = stop - start - 1 \<and>
           0 \<le> stop - start - 1 \<and> stop - start - 1 \<le> 2 * window_size"
proof -
  have "1 \<le> window_size \<and> window_size < 2 ^ 63 - 1"
    using assms(3,4) by simp
  from torch_randint_window [OF this, of raw]
  obtain R where R: "torch_randint 1 (window_size + 1) raw = Inr R"
    and R1: "1 \<le> R" and R2: "R \<le> window_size"
    by auto
  let ?start = "max 0 (idx - R)"
  let ?stop = "min (int (length words)) (idx + R + 1)"
  let ?out = "map (\<lambda>i. words ! nat i) ([?start..idx - 1] @ [idx + 1..?stop - 1])"
  have out: "get_target words idx window_size raw = Inr ?out"
    using assms(1,2) R R1 by (rule get_target_closed)
  have flt: "filter (\<lambda>i. i \<noteq> idx) (py_range ?start ?stop) = [?start..idx - 1] @ [idx + 1..?stop - 1]"
    unfolding py_range_def using assms R1 by (intro upto_without) auto
  have len: "int (length ?out) = ?stop - ?start - 1"
    using assms R1 by auto
  have bounds: "0 \<le> ?stop - ?start - 1 \<and> ?stop - ?start - 1 \<le> 2 * window_size"
    using assms R1 R2 by auto
  show ?thesis
    using R R1 R2 out flt len bounds by (intro exI [of _ R] exI [of _ ?start] exI [of _ ?stop] exI [of _ ?out]) simp
qed

theorem get_target_window_witness:
  "(2::int) < 2 ^ 63 - 1 \<and>
   (\<exists>R start stop out.
     torch_randint 1 (2 + 1) 1 = Inr R \<and> 1 \<le> R \<and> R \<le> 2 \<and>
     start = max 0 (0 - R) \<and> stop = min (int (length [10, 20, 30, 40::nat])) (0 + R + 1) \<and>
     get_target [10, 20, 30, 40::nat] 0 2 1 = Inr out \<and>
     out = map (\<lambda>i. [10, 20, 30, 40::nat] ! nat i) ([start..0 - 1] @ [0 + 1..stop - 1]) \<and>
     out = map (\<lambda>i. [10, 20, 30, 40::nat] ! nat i) (filter (\<lambda>i. i \<noteq> 0) (py_range start stop)) \<and>
     0 \<notin> set ([start..0 - 1] @ [0 + 1..stop - 1]) \<and>
     int (length out) = stop - start - 1 \<and>
     0 \<le> stop - start - 1 \<and> stop - start - 1 \<le> 2 * 2)"
  using get_target_window [of 0 "[10, 20, 30, 40::nat]" 2 1] by simp

section \<open>Claims about \<open>get_batches\<close>\<close>

text \<open>
  C3, as stated, promises three batches for every 10-element sequence with
  \<open>batch_size = 4\<close>. With \<open>window_size = 2\<^sup>6\<^sup>3 - 1\<close> the first call of \<open>get_target\<close> raises
  and no batch is yielded.
\<close>

theorem get_batches_chunks_overflow:
  "get_batches [1, 2, 3, 4, 5, 6, 7, 8, 9, 10 :: int] 4 (2 ^ 63 - 1) zero_entropy = ([], Some ValueError)"
proof -
  have "[0..<3] = [0, 1, 2]"
    by (simp add: upt_rec numeral_3_eq_3)
  then have starts: "py_range3 0 (int (length [1, 2, 3, 4, 5, 6, 7, 8, 9, 10 :: int])) 4 = Inr [0, 4, 8]"
    by (simp add: py_range3_def)
  have batch: "py_slice [1, 2, 3, 4, 5, 6, 7, 8, 9, 10 :: int] 0 4 = [1, 2, 3, 4]"
    by (simp add: py_slice_def slice_bound_def)
  have positions: "py_range 0 4 = [0, 1, 2, 3]"
    unfolding py_range_def by (simp add: upto_rec1)
  have raised: "get_target [1, 2, 3, 4 :: int] 0 (2 ^ 63 - 1) r = Inl ValueError" for r
    by (rule get_target_overflow) simp
  show ?thesis
    unfolding get_batches_def starts
    using raised by (simp add: batch positions Let_def)
qed

text \<open>
  C3, amended. For \<open>batch_size \<ge> 1\<close> and \<open>1 \<le> window_size \<le> 2\<^sup>6\<^sup>3 - 2\<close>, \<open>get_batches\<close>
  partitions the input into consecutive chunks of length \<open>batch_size\<close>, the last one
  possibly shorter and still emitted: it runs to the end and yields one pair per chunk,
  the chunks concatenate to the input, every chunk is non-empty and all but the last
  have exactly \<open>batch_size\<close> items. The pair of chunk \<open>k\<close> is built from the results of
  \<open>get_target\<close> applied to that chunk at each of its positions, so every input and every
  target of the pair is an item of the chunk. For ten items and \<open>batch_size = 4\<close> there
  are three pairs, from chunks of lengths 4, 4 and 2.
\<close>

theorem get_batches_chunks:
  assumes "1 \<le> batch_size" and "1 \<le> window_size" and "window_size < 2 ^ 63 - 1"
  shows "\<exists>batches.
           get_batches words batch_size window_size g = (batches, None) \<and>
           length batches = num_chunks (length words) (nat batch_size) \<and>
           concat (map (chunk words (nat batch_size)) [0..<length batches]) = words \<and>
           (\<forall>k<length batches.
              0 < length (chunk words (nat batch_size) k) \<and>
              length (chunk words (nat batch_size) k) \<le> nat batch_size \<and>
              (Suc k < length batches \<longrightarrow> length (chunk words (nat batch_size) k) = nat batch_size) \<and>
              batches ! k = chunk_pairs (chunk words (nat batch_size) k) window_size g (k * nat batch_size) \<and>
              (\<forall>i<length (chunk words (nat batch_size) k).
                 get_target (chunk words (nat batch_size) k) (int i) window_size (g (k * nat batch_size + i)) =
                   Inr (context_of (chunk words (nat batch_size) k) window_size (g (k * nat batch_size + i)) i)) \<and>
              set (fst (batches ! k)) \<subseteq> set (chunk words (nat batch_size) k) \<and>
              set (snd (batches ! k)) \<subseteq> set (chunk words (nat batch_size) k)) \<and>
           (length words = 10 \<and> batch_size = 4 \<longrightarrow>
              length batches = 3 \<and> map (\<lambda>k. length (chunk words 4 k)) [0..<3] = [4, 4, 2])"
proof -
  define n where "n = nat batch_size"
  define m where "m = num_chunks (length words) n"
  define batches where
    "batches = map (\<lambda>k. chunk_pairs (chunk words n k) window_size g (k * n)) [0..<m]"
  have w: "1 \<le> window_size \<and> window_size < 2 ^ 63 - 1"
    using assms(2,3) by simp
  have n: "0 < n"
    using assms(1) by (simp add: n_def)
  have run: "get_batches words batch_size window_size g = (batches, None)"
    using get_batches_closed [OF w assms(1)] by (simp add: batches_def m_def n_def)
  have len: "length batches = m"
    by (simp add: batches_def)
  have cat: "concat (map (chunk words n) [0..<m]) = words"
    unfolding m_def using n by (rule concat_chunks)
  have each: "0 < length (chunk words n k) \<and>
              length (chunk words n k) \<le> n \<and>
              (Suc k < m \<longrightarrow> length (chunk words n k) = n) \<and>
              batches ! k = chunk_pairs (chunk words n k) window_size g (k * n) \<and>
              (\<forall>i<length (chunk words n k).
                 get_target (chunk words n k) (int i) window_size (g (k * n + i)) =
                   Inr (context_of (chunk words n k) window_size (g (k * n + i)) i)) \<and>
              set (fst (batches ! k)) \<subseteq> set (chunk words n k) \<and>
              set (snd (batches ! k)) \<subseteq> set (chunk words n k)" if k: "k < m" for k
  proof -
    have nth: "batches ! k = chunk_pairs (chunk words n k) window_size g (k * n)"
      using k by (simp add: batches_def)
    have "0 < length (chunk words n k)"
      using n k unfolding m_def by (rule chunk_nonempty)
    moreover have "length (chunk words n k) \<le> n"
      by (simp add: length_chunk)
    moreover have "Suc k < m \<longrightarrow> length (chunk words n k) = n"
      using n unfolding m_def by (simp add: chunk_full)
    moreover have "\<forall>i<length (chunk words n k).
                 get_target (chunk words n k) (int i) window_size (g (k * n + i)) =
                   Inr (context_of (chunk words n k) window_size (g (k * n + i)) i)"
      using context_of_get_target [OF w] by blast
    moreover have "set (fst (batches ! k)) \<subseteq> set (chunk words n k) \<and>
              set (snd (batches ! k)) \<subseteq> set (chunk words n k)"
      unfolding nth using w by (rule chunk_pairs_within)
    ultimately show ?thesis using nth by blast
  qed
  have ten: "m = 3 \<and> map (\<lambda>k. length (chunk words 4 k)) [0..<3] = [4, 4, 2]"
    if "length words = 10" "batch_size = 4"
  proof -
    have "n = 4" using that by (simp add: n_def)
    then have "m = 3" using that by (simp add: m_def num_chunks_def)
    moreover have "[0..<3] = [0, 1, 2]"
      by (simp add: upt_rec numeral_3_eq_3)
    ultimately show ?thesis
      using that by (simp add: length_chunk)
  qed
  have len': "length batches = num_chunks (length words) n"
    using len m_def by simp
  have cat': "concat (map (chunk words n) [0..<length batches]) = words"
    using cat len by simp
  have ten': "length words = 10 \<and> batch_size = 4 \<longrightarrow>
              length batches = 3 \<and> map (\<lambda>k. length (chunk words 4 k)) [0..<3] = [4, 4, 2]"
    using ten len by simp
  show ?thesis
    unfolding n_def [symmetric] using run len' cat' each [unfolded len [symmetric]] ten'
    by (intro exI [of _ batches]) blast
qed

theorem get_batches_chunks_witness:
  "(1::int) \<le> 4 \<and> (1::int) \<le> 2 \<and> (2::int) < 2 ^ 63 - 1 \<and>
   (\<exists>batches.
           get_batches [1, 2, 3, 4, 5, 6, 7, 8, 9, 10 :: int] (4::int) 2 (\<lambda>k. k) = (batches, None) \<and>
           length batches = num_chunks (length [1, 2, 3, 4, 5, 6, 7, 8, 9, 10 :: int]) (nat 4) \<and>
           concat (map (chunk [1, 2, 3, 4, 5, 6, 7, 8, 9, 10 :: int] (nat 4)) [0..<length batches]) = [1, 2, 3, 4, 5, 6, 7, 8, 9, 10 :: int] \<and>
           (\<forall>k<length batches.
              0 < length (chunk [1, 2, 3, 4, 5, 6, 7, 8, 9, 10 :: int] (nat 4) k) \<and>
              length (chunk [1, 2, 3, 4, 5, 6, 7, 8, 9, 10 :: int] (nat 4) k) \<le> nat 4 \<and>
              (Suc k < length batches \<longrightarrow> length (chunk [1, 2, 3, 4, 5, 6, 7, 8, 9, 10 :: int] (nat 4) k) = nat 4) \<and>
              batches ! k = chunk_pairs (chunk [1, 2, 3, 4, 5, 6, 7, 8, 9, 10 :: int] (nat 4) k) 2 (\<lambda>k. k) (k * nat 4) \<and>
              (\<forall>i<length (chunk [1, 2, 3, 4, 5, 6, 7, 8, 9, 10 :: int] (nat 4) k).
                 get_target (chunk [1, 2, 3, 4, 5, 6, 7, 8, 9, 10 :: int] (nat 4) k) (int i) 2 ((\<lambda>k. k) (k * nat 4 + i)) =
                   Inr (context_of (chunk [1, 2, 3, 4, 5, 6, 7, 8, 9, 10 :: int] (nat 4) k) 2 ((\<lambda>k. k) (k * nat 4 + i)) i)) \<and>
              set (fst (batches ! k)) \<subseteq> set (chunk [1, 2, 3, 4, 5, 6, 7, 8, 9, 10 :: int] (nat 4) k) \<and>
              set (snd (batches ! k)) \<subseteq> set (chunk [1, 2, 3, 4, 5, 6, 7, 8, 9, 10 :: int] (nat 4) k)) \<and>
           (length [1, 2, 3, 4, 5, 6, 7, 8, 9, 10 :: int] = 10 \<and> (4::int) = 4 \<longrightarrow>
              length batches = 3 \<and> map (\<lambda>k. length (chunk [1, 2, 3, 4, 5, 6, 7, 8, 9, 10 :: int] 4 k)) [0..<3] = [4, 4, 2]))"
  using get_batches_chunks [of 4 2 "[1, 2, 3, 4, 5, 6, 7, 8, 9, 10 :: int]" "\<lambda>k. k"] by simp

text \<open>
  C4. For every input list, \<open>batch_size \<ge> 1\<close> and \<open>window_size \<ge> 1\<close>, every pair
  \<open>(inputs, targets)\<close> that \<open>get_batches\<close> yields has \<open>len(inputs) = len(targets)\<close>, whether
  or not an exception ends the run. There are such pairs: for \<open>window_size \<le> 2\<^sup>6\<^sup>3 - 2\<close>
  the run ends without an exception after one pair per chunk.
\<close>

theorem get_batches_equal_lengths:
  assumes "1 \<le> batch_size" and "1 \<le> window_size"
  shows "(\<forall>(inputs, targets) \<in> set (fst (get_batches words batch_size window_size g)).
            length inputs = length targets) \<and>
         (window_size < 2 ^ 63 - 1 \<longrightarrow>
            snd (get_batches words batch_size window_size g) = None \<and>
            length (fst (get_batches words batch_size window_size g)) =
              num_chunks (length words) (nat batch_size))"
proof (intro conjI impI)
  show "\<forall>(inputs, targets) \<in> set (fst (get_batches words batch_size window_size g)).
          length inputs = length targets"
    using get_batches_lengths [of _ _ words batch_size window_size g] by auto
next
  assume "window_size < 2 ^ 63 - 1"
  with assms(2) have w: "1 \<le> window_size \<and> window_size < 2 ^ 63 - 1"
    by simp
  show "snd (get_batches words batch_size window_size g) = None"
    by (simp add: get_batches_closed [OF w assms(1)])
  show "length (fst (get_batches words batch_size window_size g)) =
          num_chunks (length words) (nat batch_size)"
    by (simp add: get_batches_closed [OF w assms(1)])
qed

theorem get_batches_equal_lengths_witness:
  "(1::int) \<le> 2 \<and> (1::int) \<le> 3 \<and> (3::int) < 2 ^ 63 - 1 \<and>
   list_all (\<lambda>(inputs, targets). length inputs = length targets)
     (fst (get_batches [7, 8, 9 :: int] 2 3 (\<lambda>k. 5 * k))) \<and>
   snd (get_batches [7, 8, 9 :: int] 2 3 (\<lambda>k. 5 * k)) = None \<and>
   length (fst (get_batches [7, 8, 9 :: int] 2 3 (\<lambda>k. 5 * k))) = 2"
proof -
  have "num_chunks (length [7, 8, 9 :: int]) (nat 2) = 2"
    by (simp add: num_chunks_def)
  then show ?thesis
    using get_batches_equal_lengths [of 2 3 "[7, 8, 9 :: int]" "\<lambda>k. 5 * k"]
    by (simp add: list_all_iff)
qed

text \<open>
  C9, as stated, gives the number of yielded pairs for every list and every
  \<open>batch_size \<ge> 1\<close>, whatever the window size. With \<open>window_size = 0\<close> the first call of
  \<open>get_target\<close> raises: for a one-item list and \<open>batch_size = 1\<close> no pair is yielded, where
  \<open>ceil(1 / 1) = 1\<close>.
\<close>

theorem get_batches_count_zero_window:
  "get_batches [7 :: int] 1 0 zero_entropy = ([], Some RuntimeError)"
proof -
  have starts: "py_range3 0 (int (length [7 :: int])) 1 = Inr [0]"
    by (simp add: py_range3_def)
  have batch: "py_slice [7 :: int] 0 1 = [7]"
    by (simp add: py_slice_def slice_bound_def)
  have positions: "py_range 0 1 = [0]"
    by (simp add: py_range_def)
  have raised: "get_target [7 :: int] 0 0 r = Inl RuntimeError" for r
    by (simp add: get_target_def torch_randint_def int64_def)
  show ?thesis
    unfolding get_batches_def starts
    using raised by (simp add: batch positions Let_def)
qed

text \<open>
  C9, amended. For every list \<open>words\<close>, every \<open>batch_size \<ge> 1\<close> and every \<open>window_size\<close> with
  \<open>1 \<le> window_size \<le> 2\<^sup>6\<^sup>3 - 2\<close> (the default 5 is one), \<open>get_batches\<close> runs to the end and
  yields exactly \<open>ceil(len(words) / batch_size)\<close> pairs. For the empty list it yields no
  pair and raises nothing, whatever the window size.
\<close>

theorem get_batches_count:
  assumes "1 \<le> batch_size"
  shows "(words = [] \<longrightarrow> get_batches words batch_size window_size g = ([], None)) \<and>
         (1 \<le> window_size \<and> window_size < 2 ^ 63 - 1 \<longrightarrow>
            snd (get_batches words batch_size window_size g) = None \<and>
            int (length (fst (get_batches words batch_size window_size g))) =
              \<lceil>real (length words) / real_of_int batch_size\<rceil>)"
proof (intro conjI impI)
  assume "words = []"
  then show "get_batches words batch_size window_size g = ([], None)"
    using assms by (simp add: get_batches_empty)
next
  assume w: "1 \<le> window_size \<and> window_size < 2 ^ 63 - 1"
  define n where "n = nat batch_size"
  have n: "0 < n" and bs: "batch_size = int n"
    using assms by (simp_all add: n_def)
  let ?bs = "map (\<lambda>k. chunk_pairs (chunk words n k) window_size g (k * n))
                [0..<num_chunks (length words) n]"
  have run: "get_batches words batch_size window_size g = (?bs, None)"
    using get_batches_closed [OF w assms, of words g] by (simp add: n_def)
  show "snd (get_batches words batch_size window_size g) = None"
    by (simp add: run)
  have "int (length ?bs) = \<lceil>real (length words) / real_of_int batch_size\<rceil>"
    using num_chunks_ceiling [OF n, of "length words"] by (simp add: bs)
  then show "int (length (fst (get_batches words batch_size window_size g))) =
          \<lceil>real (length words) / real_of_int batch_size\<rceil>"
    by (simp add: run)
qed

theorem get_batches_count_witness:
  "(1::int) \<le> 3 \<and> (1::int) \<le> 5 \<and> (5::int) < 2 ^ 63 - 1 \<and>
   snd (get_batches [1, 2, 3, 4, 5, 6, 7 :: int] 3 5 zero_entropy) = None \<and>
   int (length (fst (get_batches [1, 2, 3, 4, 5, 6, 7 :: int] 3 5 zero_entropy))) = 3 \<and>
   get_batches ([] :: int list) 3 5 zero_entropy = ([], None)"
proof -
  have "\<lceil>real (length [1, 2, 3, 4, 5, 6, 7 :: int]) / real_of_int 3\<rceil> = 3"
    by (simp add: ceiling_eq_iff)
  then show ?thesis
    using get_batches_count [of 3 "[1, 2, 3, 4, 5, 6, 7 :: int]" 5 zero_entropy]
      get_batches_count [of 3 "[] :: int list" 5 zero_entropy]
    by simp
qed

section \<open>Claims about \<open>subsample_words\<close>\<close>

text \<open>
  C7. For every word list covered by the vocabulary, whenever \<open>subsample_words\<close> returns,
  the sequence it returns is a subsequence of the id-encoded input: it is at most as
  long as the input and keeps the surviving ids in their original order. It does return
  when, as for a vocabulary built by \<open>create_lookup_tables\<close>, the ids are the 64-bit
  numbers \<open>0 \<le> i < len(vocab_to_int)\<close>.
\<close>

theorem subsample_words_subsequence:
  assumes "\<forall>w \<in> set words. w \<in> fst ` set vocab_to_int"
  shows "(\<forall>train_words table.
            subsample_words words vocab_to_int threshold g = Inr (train_words, table) \<longrightarrow>
            (\<exists>ids. encode words vocab_to_int = Inr ids \<and>
                   list_all2 (\<lambda>w i. dict_get vocab_to_int w = Inr i) words ids \<and>
                   subseq train_words ids \<and>
                   length train_words \<le> length words)) \<and>
         ((\<forall>(w, i) \<in> set vocab_to_int. 0 \<le> i \<and> i < int (dict_len vocab_to_int) \<and> i < 2 ^ 63) \<longrightarrow>
            (\<exists>train_words table.
               subsample_words words vocab_to_int threshold g = Inr (train_words, table)))"
proof (intro conjI allI impI)
  fix train_words table
  assume "subsample_words words vocab_to_int threshold g = Inr (train_words, table)"
  from subsample_words_Inr [OF this] obtain ids
    where ids: "encode words vocab_to_int = Inr ids" and sub: "subseq train_words ids"
    by blast
  have all2: "list_all2 (\<lambda>w i. dict_get vocab_to_int w = Inr i) words ids"
    using encode_Inr [OF ids] by (simp add: dict_get_Inr)
  then have "length ids = length words"
    by (simp add: list_all2_lengthD)
  moreover have "length train_words \<le> length ids"
    using sub by (rule list_emb_length)
  ultimately have "length train_words \<le> length words"
    by simp
  with ids all2 sub
  show "\<exists>ids. encode words vocab_to_int = Inr ids \<and>
              list_all2 (\<lambda>w i. dict_get vocab_to_int w = Inr i) words ids \<and>
              subseq train_words ids \<and> length train_words \<le> length words"
    by blast
next
  assume "\<forall>(w, i) \<in> set vocab_to_int. 0 \<le> i \<and> i < int (dict_len vocab_to_int) \<and> i < 2 ^ 63"
  then have "\<forall>(w, i) \<in> set vocab_to_int. 0 \<le> i \<and> i < int (length vocab_to_int) \<and> i < 2 ^ 63"
    by (simp add: dict_len_def)
  with assms show "\<exists>train_words table.
      subsample_words words vocab_to_int threshold g = Inr (train_words, table)"
    by (rule subsample_words_total)
qed

theorem subsample_words_subsequence_witness:
  "set [''a'', ''b'', ''a''] \<subseteq> fst ` set [(''a'', 0::int), (''b'', 1)] \<and>
   list_all (\<lambda>(w, i). 0 \<le> i \<and> i < int (dict_len [(''a'', 0::int), (''b'', 1)]) \<and> i < 2 ^ 63)
     [(''a'', 0::int), (''b'', 1)] \<and>
   (\<exists>train_words table.
       subsample_words [''a'', ''b'', ''a''] [(''a'', 0), (''b'', 1)] 1 (\<lambda>k. k) = Inr (train_words, table) \<and>
       (\<exists>ids. encode [''a'', ''b'', ''a''] [(''a'', 0), (''b'', 1)] = Inr ids \<and>
              list_all2 (\<lambda>w i. dict_get [(''a'', 0), (''b'', 1)] w = Inr i) [''a'', ''b'', ''a''] ids \<and>
              subseq train_words ids \<and>
              length train_words \<le> length [''a'', ''b'', ''a'']))"
proof -
  have cov: "\<forall>w \<in> set [''a'', ''b'', ''a'']. w \<in> fst ` set [(''a'', 0::int), (''b'', 1)]"
    by simp
  have dense: "\<forall>(w, i) \<in> set [(''a'', 0::int), (''b'', 1)].
       0 \<le> i \<and> i < int (dict_len [(''a'', 0::int), (''b'', 1)]) \<and> i < 2 ^ 63"
    by (simp add: dict_len_def)
  have "\<exists>train_words table.
       subsample_words [''a'', ''b'', ''a''] [(''a'', 0), (''b'', 1)] 1 (\<lambda>k. k) = Inr (train_words, table) \<and>
       (\<exists>ids. encode [''a'', ''b'', ''a''] [(''a'', 0), (''b'', 1)] = Inr ids \<and>
              list_all2 (\<lambda>w i. dict_get [(''a'', 0), (''b'', 1)] w = Inr i) [''a'', ''b'', ''a''] ids \<and>
              subseq train_words ids \<and>
              length train_words \<le> length [''a'', ''b'', ''a''])"
    using subsample_words_subsequence [OF cov, of 1 "\<lambda>k. k"] dense by blast
  moreover have "set [''a'', ''b'', ''a''] \<subseteq> fst ` set [(''a'', 0::int), (''b'', 1)]"
    by simp
  moreover have "list_all (\<lambda>(w, i). 0 \<le> i \<and> i < int (dict_len [(''a'', 0::int), (''b'', 1)]) \<and> i < 2 ^ 63)
     [(''a'', 0::int), (''b'', 1)]"
    by (simp add: dict_len_def)
  ultimately show ?thesis
    by blast
qed

text \<open>
  C8. If some word of the input list is not a key of \<open>vocab_to_int\<close>, \<open>subsample_words\<close>
  raises \<open>KeyError\<close>: it neither skips the word nor returns a result. Hence it
  returns only when the vocabulary covers every word of the list.
\<close>

theorem subsample_words_missing_word:
  assumes "\<exists>w \<in> set words. w \<notin> fst ` set vocab_to_int"
  shows "subsample_words words vocab_to_int threshold g = Inl KeyError"
  using encode_missing [OF assms] by (simp add: subsample_words_def)

theorem subsample_words_missing_word_witness:
  "(\<exists>w \<in> set [''a'', ''d'']. w \<notin> fst ` set [(''a'', 0::int), (''b'', 1)]) \<and>
   subsample_words [''a'', ''d''] [(''a'', 0), (''b'', 1)] (1 / 100000) (\<lambda>k. 0) = Inl KeyError"
proof -
  have "\<exists>w \<in> set [''a'', ''d'']. w \<notin> fst ` set [(''a'', 0::int), (''b'', 1)]"
    by simp
  then show ?thesis
    using subsample_words_missing_word [of "[''a'', ''d'']" "[(''a'', 0::int), (''b'', 1)]"] by blast
qed

section \<open>Claims about \<open>cosine_similarity\<close>\<close>

text \<open>
  C1 says that both factors of every dot product are unit vectors, so that entry
  \<open>(i, j)\<close> is the cosine similarity and a word has similarity 1 with itself. The code
  normalizes the rows of the vocabulary matrix only: the validation vectors are read
  from the unnormalized \<open>embed_vectors\<close>. For the embedding with rows \<open>(2, 0)\<close> and
  \<open>(0, 2)\<close>, \<open>valid_size = 2\<close> and \<open>valid_window = 1\<close> the selected ids are 0 and 1 for every
  random draw, and the similarity returned for word 0 with itself is 2, the norm of
  its vector, where the docstring's formula gives 1.
\<close>

theorem cosine_similarity_not_normalized:
  "cosine_similarity [[2, 0], [0, 2]] 2 1 g = Inr ([0, 1], [[Some 2, Some 0], [Some 0, Some 2]]) \<and>
   true_cosine [2, 0] [2, 0] = 1"
  by (simp add: cosine_similarity_def valid_examples_window_one row_norm_axis py_index_def normalize_row_def torch_mm_t_def dot_def true_cosine_def)

text \<open>
  C10, as stated, covers every odd \<open>valid_size\<close>. The two tensors of ids have size
  \<open>valid_size // 2\<close>, which is \<open>-1\<close> for \<open>valid_size = -1\<close>: \<open>torch.randint\<close> rejects the negative
  size and \<open>cosine_similarity\<close> raises instead of selecting \<open>valid_size - 1\<close> ids.
\<close>

theorem cosine_similarity_negative_valid_size:
  "cosine_similarity [[1, 0], [0, 1]] (- 1) 1 zero_entropy = Inl RuntimeError"
  by (simp add: cosine_similarity_def valid_examples_def torch_randint_vec_def int64_def)

text \<open>
  C10, amended. \<open>cosine_similarity\<close> has no evenness check on \<open>valid_size\<close>: for every odd
  \<open>valid_size\<close> with \<open>0 < valid_size < 2\<^sup>6\<^sup>4\<close> and every \<open>valid_window\<close> with
  \<open>0 < valid_window < 2\<^sup>6\<^sup>2\<close> (so that the size and the bounds of both draws fit in 64
  bits) it selects \<open>2 * (valid_size // 2) = valid_size - 1\<close> ids without raising, the first
  \<open>valid_size // 2\<close> from \<open>[0, valid_window)\<close> and the others from
  \<open>[valid_window, 2 * valid_window)\<close>; when the embedding has at least \<open>2 * valid_window\<close>
  rows the whole function returns these ids with \<open>valid_size - 1\<close> rows of similarities.
\<close>

theorem cosine_similarity_odd_valid_size:
  assumes "odd valid_size" and "0 < valid_size" and "valid_size < 2 ^ 64"
    and "0 < valid_window" and "valid_window < 2 ^ 62"
  shows "\<exists>ids. valid_examples valid_size valid_window g = Inr ids \<and>
           int (length ids) = 2 * (valid_size div 2) \<and>
           int (length ids) = valid_size - 1 \<and>
           (\<forall>k < nat (valid_size div 2). 0 \<le> ids ! k \<and> ids ! k < valid_window) \<and>
           (\<forall>k. nat (valid_size div 2) \<le> k \<and> k < length ids \<longrightarrow>
                valid_window \<le> ids ! k \<and> ids ! k < 2 * valid_window) \<and>
           (2 * valid_window \<le> int (length embedding) \<longrightarrow>
              (\<exists>sims. cosine_similarity embedding valid_size valid_window g = Inr (ids, sims) \<and>
                      int (length sims) = valid_size - 1))"
proof -
  define h where "h = valid_size div 2"
  have h0: "0 \<le> h"
    using assms(2) by (simp add: h_def)
  have twice: "2 * h = valid_size - 1"
    using assms(1) unfolding h_def by presburger
  have h64: "int64 h"
    using h0 twice assms(3) by (simp add: int64_def)
  have fits1: "int64 0 \<and> int64 valid_window \<and> int64 h"
    using assms(4,5) h64 by (simp add: int64_def)
  have fits2: "int64 valid_window \<and> int64 (valid_window * 2) \<and> int64 h"
    using assms(4,5) h64 by (simp add: int64_def)
  from torch_randint_vec_ok [OF h0 assms(4) fits1, of g 0] obtain common
    where c: "torch_randint_vec 0 valid_window h g 0 = Inr common" "length common = nat h"
      "\<forall>x \<in> set common. 0 \<le> x \<and> x < valid_window"
    by blast
  have "valid_window < valid_window * 2"
    using assms(4) by simp
  from torch_randint_vec_ok [OF h0 this fits2, of g "length common"] obtain rare
    where r: "torch_randint_vec valid_window (valid_window * 2) h g (length common) = Inr rare"
      "length rare = nat h" "\<forall>x \<in> set rare. valid_window \<le> x \<and> x < valid_window * 2"
    by blast
  let ?ids = "common @ rare"
  have run: "valid_examples valid_size valid_window g = Inr ?ids"
    by (simp add: valid_examples_def h_def [symmetric] c(1) r(1))
  have len: "int (length ?ids) = 2 * h"
    using c(2) r(2) h0 by simp
  have lo: "\<forall>k < nat h. 0 \<le> ?ids ! k \<and> ?ids ! k < valid_window"
    using c(2,3) by (simp add: nth_append)
  have hi: "\<forall>k. nat h \<le> k \<and> k < length ?ids \<longrightarrow>
              valid_window \<le> ?ids ! k \<and> ?ids ! k < 2 * valid_window"
  proof (intro allI impI)
    fix k
    assume k: "nat h \<le> k \<and> k < length ?ids"
    then have "k - nat h < length rare"
      using c(2) r(2) by auto
    then have "rare ! (k - nat h) \<in> set rare"
      by (rule nth_mem)
    then have "valid_window \<le> rare ! (k - nat h) \<and> rare ! (k - nat h) < 2 * valid_window"
      using r(3) by auto
    moreover have "?ids ! k = rare ! (k - nat h)"
      using k c(2) by (simp add: nth_append)
    ultimately show "valid_window \<le> ?ids ! k \<and> ?ids ! k < 2 * valid_window"
      by simp
  qed
  have whole: "\<exists>sims. cosine_similarity embedding valid_size valid_window g = Inr (?ids, sims) \<and>
                      int (length sims) = valid_size - 1"
    if big: "2 * valid_window \<le> int (length embedding)"
  proof -
    have "\<forall>i \<in> set ?ids. 0 \<le> i \<and> i < int (length embedding)"
      using c(3) r(3) big assms(4) by auto
    from index_rows_ok [OF this] obtain rows
      where rows: "index_rows embedding ?ids = Inr rows" "length rows = length ?ids"
      by blast
    have "cosine_similarity embedding valid_size valid_window g =
            Inr (?ids, torch_mm_t rows (map normalize_row embedding))"
      by (simp add: cosine_similarity_def run rows(1))
    moreover have "int (length (torch_mm_t rows (map normalize_row embedding))) = valid_size - 1"
      using rows(2) len twice by (simp add: torch_mm_t_def)
    ultimately show ?thesis by blast
  qed
  show ?thesis
    using run len twice lo hi whole unfolding h_def by (intro exI [of _ ?ids]) simp
qed

theorem cosine_similarity_odd_valid_size_witness:
  "odd (3::int) \<and> (0::int) < 3 \<and> (3::int) < 2 ^ 64 \<and> (0::int) < 1 \<and> (1::int) < 2 ^ 62 \<and>
   2 * 1 \<le> int (length [[1, 0], [0, 1::real]]) \<and>
   (\<exists>ids. valid_examples 3 1 (\<lambda>k. k) = Inr ids \<and>
      int (length ids) = 2 * (3 div 2) \<and>
      int (length ids) = 3 - 1 \<and>
      (\<forall>k < nat (3 div 2). 0 \<le> ids ! k \<and> ids ! k < 1) \<and>
      (\<forall>k. nat (3 div 2) \<le> k \<and> k < length ids \<longrightarrow> 1 \<le> ids ! k \<and> ids ! k < 2 * 1) \<and>
      (\<exists>sims. cosine_similarity [[1, 0], [0, 1]] 3 1 (\<lambda>k. k) = Inr (ids, sims) \<and>
              int (length sims) = 3 - 1))"
  using cosine_similarity_odd_valid_size [of 3 1 "\<lambda>k. k" "[[1, 0], [0, 1::real]]"] by simp

end
